theory Spec2Isabelle
  imports Complex_Main "HOL-Library.Sublist"
begin

section \<open>Python strings\<close>

text \<open>
  A Python \<^verbatim>\<open>str\<close> is a sequence of Unicode code points; it is modelled as the list of
  their numbers. A \<^verbatim>\<open>bytes\<close> object is the list of its byte values. Literals of the
  source are written with \<open>lit\<close>, which reads an ASCII string as its code points.
\<close>

type_synonym pystr = "nat list"

definition lit :: "string \<Rightarrow> pystr" where
  "lit s = map of_char s"

text \<open>\<^verbatim>\<open>s.startswith(prefix)\<close>\<close>

fun startswith :: "pystr \<Rightarrow> pystr \<Rightarrow> bool" where
  "startswith s [] = True"
| "startswith [] (p # ps) = False"
| "startswith (c # cs) (p # ps) = (c = p \<and> startswith cs ps)"

text \<open>
  The surrogate code points U+D800..U+DFFF can occur in a Python string but have no UTF-8
  encoding; every other code point below U+110000 is a Unicode scalar value. Printable
  characters are scalar values.
\<close>

definition surrogate :: "nat \<Rightarrow> bool" where
  "surrogate c = (0xD800 \<le> c \<and> c \<le> 0xDFFF)"

definition scalar :: "nat \<Rightarrow> bool" where
  "scalar c = (c < 0x110000 \<and> \<not> surrogate c)"

datatype error = UnicodeEncodeError

section \<open>UTF-8, as \<^verbatim>\<open>str.encode('utf-8', 'strict')\<close> and \<^verbatim>\<open>bytes.decode('utf-8', 'replace')\<close>\<close>

definition utf8_char :: "nat \<Rightarrow> error + nat list" where
  "utf8_char c =
     (if c < 0x80 then Inr [c]
      else if c < 0x800 then Inr [0xC0 + c div 64, 0x80 + c mod 64]
      else if c < 0x10000 then
        (if surrogate c then Inl UnicodeEncodeError
         else Inr [0xE0 + c div 4096, 0x80 + (c div 64) mod 64, 0x80 + c mod 64])
      else if c < 0x110000 then
        Inr [0xF0 + c div 262144, 0x80 + (c div 4096) mod 64,
             0x80 + (c div 64) mod 64, 0x80 + c mod 64]
      else Inl UnicodeEncodeError)"

fun utf8_encode :: "pystr \<Rightarrow> error + nat list" where
  "utf8_encode [] = Inr []"
| "utf8_encode (c # cs) =
     (case utf8_char c of
        Inl e \<Rightarrow> Inl e
      | Inr bs \<Rightarrow> (case utf8_encode cs of Inl e \<Rightarrow> Inl e | Inr rest \<Rightarrow> Inr (bs @ rest)))"

definition cont :: "nat \<Rightarrow> bool" where
  "cont b = (0x80 \<le> b \<and> b \<le> 0xBF)"

text \<open>The second byte of a sequence is restricted further after the lead bytes E0, ED, F0, F4.\<close>

definition second_ok :: "nat \<Rightarrow> nat \<Rightarrow> bool" where
  "second_ok b b1 =
     (if b = 0xE0 then 0xA0 \<le> b1 \<and> b1 \<le> 0xBF
      else if b = 0xED then 0x80 \<le> b1 \<and> b1 \<le> 0x9F
      else if b = 0xF0 then 0x90 \<le> b1 \<and> b1 \<le> 0xBF
      else if b = 0xF4 then 0x80 \<le> b1 \<and> b1 \<le> 0x8F
      else cont b1)"

text \<open>
  Decoding with \<^verbatim>\<open>errors='replace'\<close>: the longest prefix that begins a well-formed sequence
  and cannot be completed becomes one U+FFFD, and decoding resumes behind it.
\<close>

fun utf8_decode :: "nat list \<Rightarrow> pystr" where
  "utf8_decode [] = []"
| "utf8_decode (b # bs) =
     (if b < 0x80 then b # utf8_decode bs
      else if 0xC2 \<le> b \<and> b \<le> 0xDF then
        (case bs of
           [] \<Rightarrow> [0xFFFD]
         | b1 # r1 \<Rightarrow>
             if cont b1 then ((b - 0xC0) * 64 + (b1 - 0x80)) # utf8_decode r1
             else 0xFFFD # utf8_decode bs)
      else if 0xE0 \<le> b \<and> b \<le> 0xEF then
        (case bs of
           [] \<Rightarrow> [0xFFFD]
         | b1 # r1 \<Rightarrow>
             if second_ok b b1 then
               (case r1 of
                  [] \<Rightarrow> [0xFFFD]
                | b2 # r2 \<Rightarrow>
                    if cont b2
                    then ((b - 0xE0) * 4096 + (b1 - 0x80) * 64 + (b2 - 0x80)) # utf8_decode r2
                    else 0xFFFD # utf8_decode r1)
             else 0xFFFD # utf8_decode bs)
      else if 0xF0 \<le> b \<and> b \<le> 0xF4 then
        (case bs of
           [] \<Rightarrow> [0xFFFD]
         | b1 # r1 \<Rightarrow>
             if second_ok b b1 then
               (case r1 of
                  [] \<Rightarrow> [0xFFFD]
                | b2 # r2 \<Rightarrow>
                    if cont b2 then
                      (case r2 of
                         [] \<Rightarrow> [0xFFFD]
                       | b3 # r3 \<Rightarrow>
                           if cont b3
                           then ((b - 0xF0) * 262144 + (b1 - 0x80) * 4096
                                 + (b2 - 0x80) * 64 + (b3 - 0x80)) # utf8_decode r3
                           else 0xFFFD # utf8_decode r2)
                    else 0xFFFD # utf8_decode r1)
             else 0xFFFD # utf8_decode bs)
      else 0xFFFD # utf8_decode bs)"

section \<open>\<^verbatim>\<open>urllib.parse.quote\<close> and \<^verbatim>\<open>urllib.parse.unquote\<close>\<close>

text \<open>The bytes never quoted: ASCII letters, digits and \<^verbatim>\<open>_.-~\<close>.\<close>

definition always_safe :: "nat \<Rightarrow> bool" where
  "always_safe b =
     ((65 \<le> b \<and> b \<le> 90) \<or> (97 \<le> b \<and> b \<le> 122) \<or> (48 \<le> b \<and> b \<le> 57)
      \<or> b = 95 \<or> b = 46 \<or> b = 45 \<or> b = 126)"

definition hex_upper :: "nat \<Rightarrow> nat" where
  "hex_upper d = (if d < 10 then 48 + d else 55 + d)"

text \<open>The quoter for \<^verbatim>\<open>safe=""\<close>: a safe byte stays, any other becomes \<^verbatim>\<open>'%{:02X}'\<close>.\<close>

definition quoter :: "nat \<Rightarrow> pystr" where
  "quoter b = (if always_safe b then [b] else [37, hex_upper (b div 16), hex_upper (b mod 16)])"

definition rstrip_safe :: "nat list \<Rightarrow> nat list" where
  "rstrip_safe bs = rev (dropWhile always_safe (rev bs))"

definition quote_from_bytes :: "nat list \<Rightarrow> pystr" where
  "quote_from_bytes bs =
     (if bs = [] then []
      else if rstrip_safe bs = [] then bs
      else concat (map quoter bs))"

definition quote :: "pystr \<Rightarrow> error + pystr" where
  "quote s =
     (if s = [] then Inr s
      else (case utf8_encode s of Inl e \<Rightarrow> Inl e | Inr bs \<Rightarrow> Inr (quote_from_bytes bs)))"

text \<open>\<^verbatim>\<open>bytes.split(sep)\<close> for a separator of one byte: always at least one piece.\<close>

fun split_on :: "nat \<Rightarrow> nat list \<Rightarrow> nat list list" where
  "split_on sep [] = [[]]"
| "split_on sep (c # cs) =
     (if c = sep then [] # split_on sep cs
      else (case split_on sep cs of [] \<Rightarrow> [[c]] | p # ps \<Rightarrow> (c # p) # ps))"

definition hexval :: "nat \<Rightarrow> nat option" where
  "hexval c =
     (if 48 \<le> c \<and> c \<le> 57 then Some (c - 48)
      else if 65 \<le> c \<and> c \<le> 70 then Some (c - 55)
      else if 97 \<le> c \<and> c \<le> 102 then Some (c - 87)
      else None)"

text \<open>The table \<^verbatim>\<open>_hextobyte\<close>, looked up at \<^verbatim>\<open>item[:2]\<close>; \<open>None\<close> is the \<^verbatim>\<open>KeyError\<close>.\<close>

definition hextobyte :: "nat list \<Rightarrow> nat option" where
  "hextobyte item =
     (case item of
        a # b # _ \<Rightarrow>
          (case hexval a of
             None \<Rightarrow> None
           | Some x \<Rightarrow> (case hexval b of None \<Rightarrow> None | Some y \<Rightarrow> Some (16 * x + y)))
      | _ \<Rightarrow> None)"

definition unquote_item :: "nat list \<Rightarrow> nat list" where
  "unquote_item item =
     (case hextobyte item of Some b \<Rightarrow> b # drop 2 item | None \<Rightarrow> 37 # item)"

text \<open>
  \<^verbatim>\<open>unquote_to_bytes\<close> is only applied to ASCII text here, whose UTF-8 encoding is the text
  itself.
\<close>

definition unquote_to_bytes :: "pystr \<Rightarrow> nat list" where
  "unquote_to_bytes string =
     (if string = [] then []
      else (case split_on 37 string of
              [] \<Rightarrow> string
            | [b] \<Rightarrow> string
            | b # items \<Rightarrow> b @ concat (map unquote_item items)))"

text \<open>
  \<^verbatim>\<open>unquote\<close> splits the string at the regular expression \<^verbatim>\<open>([\x00-\x7f]+)\<close>: each maximal run
  of ASCII characters is unquoted to bytes and decoded, everything between is copied.
\<close>

function unquote_runs :: "pystr \<Rightarrow> pystr" where
  "unquote_runs [] = []"
| "unquote_runs (c # cs) =
     (if c < 128
      then utf8_decode (unquote_to_bytes (takeWhile (\<lambda>x. x < 128) (c # cs)))
           @ unquote_runs (dropWhile (\<lambda>x. x < 128) cs)
      else c # unquote_runs cs)"
  by pat_completeness auto
termination
  by (relation "measure length") (auto simp: length_dropWhile_le less_Suc_eq_le)

definition unquote :: "pystr \<Rightarrow> pystr" where
  "unquote string = (if 37 \<notin> set string then string else unquote_runs string)"

subsection \<open>The two functions of \<^verbatim>\<open>web_scraper.py\<close>\<close>

definition encode_url_to_filename :: "pystr \<Rightarrow> error + pystr" where
  "encode_url_to_filename url = quote url"

definition decode_filename_to_url :: "pystr \<Rightarrow> pystr" where
  "decode_filename_to_url filename = unquote filename"

text \<open>
  The general case of \<^verbatim>\<open>unquote_to_bytes\<close>, without its two shortcuts for an empty string
  and for a string without \<^verbatim>\<open>%\<close>; the shortcuts return the same bytes.
\<close>

definition unq :: "nat list \<Rightarrow> nat list" where
  "unq xs = hd (split_on 37 xs) @ concat (map unquote_item (tl (split_on 37 xs)))"


section \<open>Searching: \<^verbatim>\<open>get_urls\<close>\<close>

text \<open>
  A call into a library or the network either raises or returns. The search back ends, the
  HTTP session and the chat model are outside the program; their behaviour is a parameter of
  the model, and every theorem holds for all of them.
\<close>

datatype 'a outcome = Raises | Returns 'a

text \<open>Python truth of a value that is \<^verbatim>\<open>None\<close> or a string: \<^verbatim>\<open>None\<close> and \<^verbatim>\<open>""\<close> are false.\<close>

definition truthy :: "pystr option \<Rightarrow> bool" where
  "truthy u = (case u of None \<Rightarrow> False | Some s \<Rightarrow> s \<noteq> [])"

text \<open>
  \<^verbatim>\<open>str.lower()\<close>: on an ASCII string it maps \<^verbatim>\<open>A-Z\<close> to \<^verbatim>\<open>a-z\<close>. On other strings it follows
  the Unicode tables, which are a parameter here.
\<close>

definition ascii_lower :: "nat \<Rightarrow> nat" where
  "ascii_lower c = (if 65 \<le> c \<and> c \<le> 90 then c + 32 else c)"

definition lower :: "(pystr \<Rightarrow> pystr) \<Rightarrow> pystr \<Rightarrow> pystr" where
  "lower unicode_lower s =
     (if list_all (\<lambda>c. c < 128) s then map ascii_lower s else unicode_lower s)"

text \<open>\<^verbatim>\<open>(provider or "duckduckgo").lower()\<close>\<close>

definition normal_provider :: "(pystr \<Rightarrow> pystr) \<Rightarrow> pystr option \<Rightarrow> pystr" where
  "normal_provider unicode_lower provider =
     lower unicode_lower (if truthy provider then the provider else lit ''duckduckgo'')"

definition http_url :: "pystr \<Rightarrow> bool" where
  "http_url u = (startswith u (lit ''http://'') \<or> startswith u (lit ''https://''))"

text \<open>
  The loop at the end of \<^verbatim>\<open>get_urls\<close>, with its two variables \<^verbatim>\<open>seen\<close> and \<^verbatim>\<open>clean\<close>. An entry
  of \<^verbatim>\<open>urls\<close> is \<^verbatim>\<open>None\<close> or a string.
\<close>

fun clean_loop :: "pystr option list \<Rightarrow> pystr set \<Rightarrow> pystr list \<Rightarrow> pystr list" where
  "clean_loop [] seen clean = clean"
| "clean_loop (u # urls) seen clean =
     (if \<not> truthy u then clean_loop urls seen clean
      else if \<not> http_url (the u) then clean_loop urls seen clean
      else if the u \<in> seen then clean_loop urls seen clean
      else clean_loop urls (insert (the u) seen) (clean @ [the u]))"

definition clean_urls :: "pystr option list \<Rightarrow> pystr list" where
  "clean_urls urls = clean_loop urls {} []"

text \<open>
  \<^verbatim>\<open>get_urls(query, num_results, provider)\<close>. The parameters \<open>ddgs_text\<close> and \<open>google_search\<close>
  say what the two back ends do for a query: raise, or return their entries (for DuckDuckGo
  the \<^verbatim>\<open>href\<close> of each item, \<^verbatim>\<open>None\<close> where an item has none).
\<close>

definition get_urls ::
  "(pystr \<Rightarrow> pystr) \<Rightarrow> (pystr \<Rightarrow> int \<Rightarrow> pystr option list outcome)
   \<Rightarrow> (pystr \<Rightarrow> int \<Rightarrow> pystr option list outcome)
   \<Rightarrow> pystr \<Rightarrow> int \<Rightarrow> pystr option \<Rightarrow> pystr list" where
  "get_urls unicode_lower ddgs_text google_search query num_results provider =
     (let provider = normal_provider unicode_lower provider;
          urls =
            (if provider = lit ''duckduckgo'' then
               (case ddgs_text query num_results of
                  Raises \<Rightarrow> []
                | Returns results \<Rightarrow> filter truthy results)
             else if provider = lit ''google'' then
               (case google_search query num_results of
                  Raises \<Rightarrow> []
                | Returns results \<Rightarrow> filter truthy results)
             else [])
      in clean_urls urls)"

text \<open>
  What the specification calls stable de-duplication: keep the first occurrence of every
  element, in the order of these first occurrences.
\<close>

function stable_dedup :: "'a list \<Rightarrow> 'a list" where
  "stable_dedup [] = []"
| "stable_dedup (x # xs) = x # stable_dedup (removeAll x xs)"
  by pat_completeness auto
termination
  by (relation "measure length") (auto simp: length_removeAll_less_eq less_Suc_eq_le)

section \<open>Fetching: \<^verbatim>\<open>fetch_and_save\<close> and \<^verbatim>\<open>fetch_web_pages\<close>\<close>

text \<open>\<^verbatim>\<open>os.path.join(a, b)\<close> on a POSIX system; 47 is the separator \<^verbatim>\<open>/\<close>.\<close>

definition os_path_join :: "pystr \<Rightarrow> pystr \<Rightarrow> pystr" where
  "os_path_join a b =
     (if startswith b [47] then b
      else if a = [] \<or> last a = 47 then a @ b
      else a @ [47] @ b)"

text \<open>
  What happens inside the \<^verbatim>\<open>try\<close> block of \<^verbatim>\<open>fetch_and_save\<close>:
  \<^item> \<open>FetchError\<close>: the request, the status check, reading or parsing the page, or opening
    the file raises; no file has been touched;
  \<^item> \<open>WriteError left\<close>: the page was read, \<^verbatim>\<open>open(filepath, "w")\<close> created or emptied the file,
    and \<^verbatim>\<open>f.write(text)\<close> raised with \<open>left\<close> on disk;
  \<^item> \<open>Saved text\<close>: the extracted text was written.
\<close>

datatype fetch_outcome = FetchError | WriteError pystr | Saved pystr

text \<open>
  The state: the files on disk (path to content), and the log of what was done. An entry
  \<open>Fetched url result\<close> stands for one call of \<^verbatim>\<open>fetch_and_save\<close> that made its request, with
  the value it returned (it is where the source logs \<^verbatim>\<open>Saved\<close> or \<^verbatim>\<open>Failed to fetch\<close>); \<open>Slept d\<close>
  stands for \<^verbatim>\<open>asyncio.sleep(d)\<close>.
\<close>

datatype event = Fetched pystr "pystr option" | Slept real

record state =
  files :: "pystr \<rightharpoonup> pystr"
  log :: "event list"


text \<open>
  \<^verbatim>\<open>fetch_and_save(session, url, folder)\<close>; \<open>session\<close> says what the request for a URL leads to.
  The file name is computed before the \<^verbatim>\<open>try\<close>, so an error of the encoding is not caught.
\<close>

definition fetch_and_save ::
  "(pystr \<Rightarrow> fetch_outcome) \<Rightarrow> pystr \<Rightarrow> pystr \<Rightarrow> state \<Rightarrow> error + (pystr option \<times> state)" where
  "fetch_and_save session url folder st =
     (case encode_url_to_filename url of
        Inl e \<Rightarrow> Inl e
      | Inr filename \<Rightarrow>
          (let filepath = os_path_join folder filename in
           case session url of
             FetchError \<Rightarrow>
               Inr (None, st\<lparr>log := log st @ [Fetched url None]\<rparr>)
           | WriteError left \<Rightarrow>
               Inr (None, st\<lparr>files := (files st)(filepath \<mapsto> left),
                               log := log st @ [Fetched url None]\<rparr>)
           | Saved text \<Rightarrow>
               Inr (Some filepath, st\<lparr>files := (files st)(filepath \<mapsto> text),
                                        log := log st @ [Fetched url (Some filepath)]\<rparr>)))"



text \<open>
  The world of one run: the \<open>i\<close>-th search of each back end, and the \<open>j\<close>-th fetch of the
  \<open>i\<close>-th batch.
\<close>

record web =
  unicode_lower :: "pystr \<Rightarrow> pystr"
  ddgs_text :: "nat \<Rightarrow> pystr \<Rightarrow> int \<Rightarrow> pystr option list outcome"
  google_search :: "nat \<Rightarrow> pystr \<Rightarrow> int \<Rightarrow> pystr option list outcome"
  session_get :: "nat \<Rightarrow> nat \<Rightarrow> pystr \<Rightarrow> fetch_outcome"





section \<open>Query expansion: \<^verbatim>\<open>extract_queries\<close>\<close>

text \<open>
  The value \<^verbatim>\<open>json.loads\<close> returns. An object is the list of its items, with distinct keys; a
  number is kept as the text of its literal. The parser itself and \<^verbatim>\<open>str()\<close> of a value that
  is not a string are parameters of \<^verbatim>\<open>extract_queries\<close> below.
\<close>

datatype json =
  JNull | JBool bool | JNumber pystr | JString pystr
| JArray "json list" | JObject "(pystr \<times> json) list"

text \<open>\<^verbatim>\<open>str(q)\<close>: a string is returned as it is.\<close>

definition str_of :: "(json \<Rightarrow> pystr) \<Rightarrow> json \<Rightarrow> pystr" where
  "str_of py_str q = (case q of JString s \<Rightarrow> s | _ \<Rightarrow> py_str q)"

text \<open>The characters at which \<^verbatim>\<open>str.splitlines\<close> ends a line, besides \<^verbatim>\<open>\r\n\<close>.\<close>

definition linebreak :: "nat \<Rightarrow> bool" where
  "linebreak c = (c \<in> {0x0A, 0x0B, 0x0C, 0x0D, 0x1C, 0x1D, 0x1E, 0x85, 0x2028, 0x2029})"

text \<open>\<^verbatim>\<open>str.splitlines()\<close>; \<open>cur\<close> is the line read so far, reversed.\<close>

fun splitlines_from :: "pystr \<Rightarrow> pystr \<Rightarrow> pystr list" where
  "splitlines_from cur [] = (if cur = [] then [] else [rev cur])"
| "splitlines_from cur [c] =
     (if linebreak c then [rev cur] else [rev (c # cur)])"
| "splitlines_from cur (c # d # cs) =
     (if c = 0x0D \<and> d = 0x0A then rev cur # splitlines_from [] cs
      else if linebreak c then rev cur # splitlines_from [] (d # cs)
      else splitlines_from (c # cur) (d # cs))"

definition splitlines :: "pystr \<Rightarrow> pystr list" where
  "splitlines s = splitlines_from [] s"

text \<open>The characters for which \<^verbatim>\<open>str.isspace\<close> holds; \<^verbatim>\<open>str.strip()\<close> removes them at both ends.\<close>

definition isspace :: "nat \<Rightarrow> bool" where
  "isspace c =
     ((0x09 \<le> c \<and> c \<le> 0x0D) \<or> (0x1C \<le> c \<and> c \<le> 0x20) \<or> c = 0x85 \<or> c = 0xA0
      \<or> c = 0x1680 \<or> (0x2000 \<le> c \<and> c \<le> 0x200A) \<or> c = 0x2028 \<or> c = 0x2029
      \<or> c = 0x202F \<or> c = 0x205F \<or> c = 0x3000)"

definition strip :: "pystr \<Rightarrow> pystr" where
  "strip s = rev (dropWhile isspace (rev (dropWhile isspace s)))"

text \<open>What one call of \<^verbatim>\<open>chat\<close> leads to: an exception, or a response whose content is
  \<^verbatim>\<open>None\<close> or a string (the empty string when the response has no content).\<close>

datatype chat_outcome = ChatRaises | ChatContent "pystr option"

text \<open>
  The \<^verbatim>\<open>try\<close> block around \<^verbatim>\<open>json.loads\<close>: \<open>Some\<close> of the returned list when one of its two
  \<^verbatim>\<open>return\<close> statements is reached, \<open>None\<close> when the block is left without returning.
\<close>

definition parsed_queries ::
  "(pystr \<Rightarrow> json option) \<Rightarrow> (json \<Rightarrow> pystr) \<Rightarrow> pystr \<Rightarrow> pystr list option" where
  "parsed_queries json_loads py_str content =
     (case json_loads content of
        None \<Rightarrow> None
      | Some parsed \<Rightarrow>
          (case parsed of
             JObject items \<Rightarrow>
               (case map_of items (lit ''queries'') of
                  Some (JArray qs) \<Rightarrow> Some (map (str_of py_str) qs)
                | _ \<Rightarrow> None)
           | JArray qs \<Rightarrow> Some (map (str_of py_str) qs)
           | _ \<Rightarrow> None))"

text \<open>The part of \<^verbatim>\<open>extract_queries\<close> after the content has been received, from line 42 on.\<close>

definition queries_of_content ::
  "(pystr \<Rightarrow> json option) \<Rightarrow> (json \<Rightarrow> pystr) \<Rightarrow> pystr \<Rightarrow> pystr option \<Rightarrow> pystr list" where
  "queries_of_content json_loads py_str query content =
     (if \<not> truthy content then [query]
      else (case parsed_queries json_loads py_str (the content) of
              Some qs \<Rightarrow> qs
            | None \<Rightarrow>
                (let lines = filter (\<lambda>line. line \<noteq> []) (map strip (splitlines (the content)))
                 in if lines \<noteq> [] then lines else [query])))"

text \<open>
  \<^verbatim>\<open>extract_queries(query, model)\<close>. \<open>schema_chat\<close> is what the first call of \<^verbatim>\<open>chat\<close> (with the
  schema) leads to and \<open>plain_chat\<close> what the second call (without it) leads to; the prompt
  and the model name only reach these calls.
\<close>

definition extract_queries ::
  "(pystr \<Rightarrow> json option) \<Rightarrow> (json \<Rightarrow> pystr) \<Rightarrow> chat_outcome \<Rightarrow> chat_outcome
   \<Rightarrow> pystr \<Rightarrow> pystr list" where
  "extract_queries json_loads py_str schema_chat plain_chat query =
     (case schema_chat of
        ChatContent content \<Rightarrow> queries_of_content json_loads py_str query content
      | ChatRaises \<Rightarrow>
          (case plain_chat of
             ChatRaises \<Rightarrow> [query]
           | ChatContent content \<Rightarrow> queries_of_content json_loads py_str query content))"

section \<open>The chat turn of \<^verbatim>\<open>app.py\<close>\<close>




section \<open>Notions used to state the claims\<close>

text \<open>A directory name as the beginning of the paths of its entries.\<close>

definition directory_prefix :: "pystr \<Rightarrow> pystr" where
  "directory_prefix folder = (if folder = [] \<or> last folder = 47 then folder else folder @ [47])"


text \<open>
  The entries of a URL list that are left once the null or empty ones and those that do not
  begin with \<^verbatim>\<open>http://\<close> or \<^verbatim>\<open>https://\<close> are dropped, in their order and with their repeats.
\<close>

definition candidates :: "pystr option list \<Rightarrow> pystr list" where
  "candidates urls = filter http_url (map the (filter truthy urls))"







section \<open>Percent-encoding can be undone\<close>

subsection \<open>UTF-8\<close>

lemma div_4096: "(c::nat) div 4096 = c div 64 div 64"
  by (simp add: div_mult2_eq [symmetric])

lemma div_262144: "(c::nat) div 262144 = c div 4096 div 64"
  by (simp add: div_mult2_eq [symmetric])

lemma parts64: "64 * (c div 64) + c mod 64 = (c::nat)" "c mod 64 < 64"
  by simp_all


lemma utf8_decode_1: "b < 0x80 \<Longrightarrow> utf8_decode (b # r) = b # utf8_decode r"
  by simp

lemma utf8_decode_2:
  assumes "0xC2 \<le> b" "b \<le> 0xDF" "cont b1"
  shows "utf8_decode (b # b1 # r) = ((b - 0xC0) * 64 + (b1 - 0x80)) # utf8_decode r"
  by (subst utf8_decode.simps(2)) (use assms in \<open>simp del: utf8_decode.simps(2)\<close>)

lemma utf8_decode_3:
  assumes "0xE0 \<le> b" "b \<le> 0xEF" "second_ok b b1" "cont b2"
  shows "utf8_decode (b # b1 # b2 # r)
         = ((b - 0xE0) * 4096 + (b1 - 0x80) * 64 + (b2 - 0x80)) # utf8_decode r"
  by (subst utf8_decode.simps(2)) (use assms in \<open>simp del: utf8_decode.simps(2)\<close>)

lemma utf8_decode_4:
  assumes "0xF0 \<le> b" "b \<le> 0xF4" "second_ok b b1" "cont b2" "cont b3"
  shows "utf8_decode (b # b1 # b2 # b3 # r)
         = ((b - 0xF0) * 262144 + (b1 - 0x80) * 4096 + (b2 - 0x80) * 64 + (b3 - 0x80))
           # utf8_decode r"
  by (subst utf8_decode.simps(2)) (use assms in \<open>simp del: utf8_decode.simps(2)\<close>)

lemma decode2:
  assumes "0x80 \<le> c" "c < 0x800"
  shows "utf8_decode ((0xC0 + c div 64) # (0x80 + c mod 64) # rest) = c # utf8_decode rest"
proof -
  have b: "0xC2 \<le> 0xC0 + c div 64 \<and> 0xC0 + c div 64 \<le> 0xDF"
    using assms parts64 [of c] by linarith
  have d: "cont (0x80 + c mod 64)" unfolding cont_def using parts64 [of c] by linarith
  have e: "(0xC0 + c div 64 - 0xC0) * 64 + (0x80 + c mod 64 - 0x80) = c" by simp
  show ?thesis
    using utf8_decode_2 [OF conjunct1 [OF b] conjunct2 [OF b] d, of rest] e by simp
qed

lemma decode3:
  assumes "0x800 \<le> c" "c < 0x10000" "\<not> surrogate c"
  shows "utf8_decode ((0xE0 + c div 4096) # (0x80 + (c div 64) mod 64) # (0x80 + c mod 64) # rest)
         = c # utf8_decode rest"
proof -
  define q where "q = c div 64"
  define h where "h = q div 64"
  define m where "m = q mod 64"
  define r where "r = c mod 64"
  have c: "64 * q + r = c" "r < 64" and q: "64 * h + m = q" "m < 64"
    by (simp_all add: q_def h_def m_def r_def)
  have hd: "c div 4096 = h" by (simp add: div_4096 h_def q_def)
  have b: "0xE0 \<le> 0xE0 + h \<and> 0xE0 + h \<le> 0xEF" using assms c q by linarith
  have s0: "h = 0 \<Longrightarrow> 32 \<le> m" using assms c q by linarith
  have s13: "h = 13 \<Longrightarrow> m \<le> 31" using assms c q unfolding surrogate_def by linarith
  have s: "second_ok (0xE0 + h) (0x80 + m)"
    using s0 s13 q(2) b unfolding second_ok_def cont_def by auto
  have d: "cont (0x80 + r)" unfolding cont_def using c by linarith
  have e: "(0xE0 + h - 0xE0) * 4096 + (0x80 + m - 0x80) * 64 + (0x80 + r - 0x80) = c"
    using c q by simp
  show ?thesis
    unfolding hd q_def [symmetric] m_def [symmetric] r_def [symmetric]
    using utf8_decode_3 [OF conjunct1 [OF b] conjunct2 [OF b] s d, of rest] e by simp
qed

lemma decode4:
  assumes "0x10000 \<le> c" "c < 0x110000"
  shows "utf8_decode ((0xF0 + c div 262144) # (0x80 + (c div 4096) mod 64)
           # (0x80 + (c div 64) mod 64) # (0x80 + c mod 64) # rest)
         = c # utf8_decode rest"
proof -
  define q where "q = c div 64"
  define h where "h = q div 64"
  define m where "m = q mod 64"
  define r where "r = c mod 64"
  define g where "g = h div 64"
  define n where "n = h mod 64"
  have c: "64 * q + r = c" "r < 64" and q: "64 * h + m = q" "m < 64"
    and h: "64 * g + n = h" "n < 64"
    by (simp_all add: q_def h_def m_def r_def g_def n_def)
  have hd: "c div 4096 = h" by (simp add: div_4096 h_def q_def)
  have gd: "c div 262144 = g" by (simp add: div_262144 hd g_def)
  have b: "0xF0 \<le> 0xF0 + g \<and> 0xF0 + g \<le> 0xF4" using assms c q h by linarith
  have s0: "g = 0 \<Longrightarrow> 16 \<le> n" using assms c q h by linarith
  have s4: "g = 4 \<Longrightarrow> n \<le> 15" using assms c q h by linarith
  have s: "second_ok (0xF0 + g) (0x80 + n)"
    using s0 s4 h(2) b unfolding second_ok_def cont_def by auto
  have d1: "cont (0x80 + m)" unfolding cont_def using q by linarith
  have d: "cont (0x80 + r)" unfolding cont_def using c by linarith
  have e: "(0xF0 + g - 0xF0) * 262144 + (0x80 + n - 0x80) * 4096
           + (0x80 + m - 0x80) * 64 + (0x80 + r - 0x80) = c"
    using c q h by simp
  show ?thesis
    unfolding gd hd q_def [symmetric] m_def [symmetric] r_def [symmetric] n_def [symmetric]
    using utf8_decode_4 [OF conjunct1 [OF b] conjunct2 [OF b] s d1 d, of rest] e by simp
qed


lemma utf8_decode_char:
  assumes "utf8_char c = Inr bs"
  shows "utf8_decode (bs @ rest) = c # utf8_decode rest"
proof -
  consider "c < 0x80" | "0x80 \<le> c" "c < 0x800" | "0x800 \<le> c" "c < 0x10000" | "0x10000 \<le> c"
    by linarith
  then show ?thesis
  proof cases
    case 1
    with assms have "bs = [c]" by (simp add: utf8_char_def)
    with 1 show ?thesis by (simp add: utf8_decode_1 del: utf8_decode.simps(2))
  next
    case 2
    with assms have "bs = [0xC0 + c div 64, 0x80 + c mod 64]" by (simp add: utf8_char_def)
    with 2 show ?thesis using decode2 by (simp del: utf8_decode.simps(2))
  next
    case 3
    with assms have "\<not> surrogate c \<and> bs = [0xE0 + c div 4096, 0x80 + (c div 64) mod 64, 0x80 + c mod 64]"
      by (simp add: utf8_char_def split: if_splits)
    with 3 show ?thesis using decode3 by (simp del: utf8_decode.simps(2))
  next
    case 4
    with assms have "c < 0x110000 \<and> bs = [0xF0 + c div 262144, 0x80 + (c div 4096) mod 64,
             0x80 + (c div 64) mod 64, 0x80 + c mod 64]"
      by (simp add: utf8_char_def split: if_splits)
    with 4 show ?thesis using decode4 by (simp del: utf8_decode.simps(2))
  qed
qed

lemma utf8_decode_encode:
  "utf8_encode s = Inr bs \<Longrightarrow> utf8_decode bs = s"
proof (induction s arbitrary: bs)
  case Nil
  then show ?case by simp
next
  case (Cons c cs)
  from Cons.prems obtain b r where b: "utf8_char c = Inr b" and r: "utf8_encode cs = Inr r"
    and bs: "bs = b @ r"
    by (auto split: sum.splits)
  from Cons.IH [OF r] utf8_decode_char [OF b] bs show ?case by (simp del: utf8_decode.simps(2))
qed

lemma utf8_encode_scalar: "list_all scalar s \<Longrightarrow> \<exists>bs. utf8_encode s = Inr bs"
  by (induction s) (auto simp: utf8_char_def scalar_def)

lemma utf8_decode_ascii: "list_all (\<lambda>b. b < 128) bs \<Longrightarrow> utf8_decode bs = bs"
  by (induction bs) (simp_all add: utf8_decode_1 del: utf8_decode.simps(2))

subsection \<open>Quoting and unquoting bytes\<close>

lemma split_on_nonempty: "split_on sep xs \<noteq> []"
  by (induction xs) (auto split: list.splits)

lemma split_on_single: "split_on sep xs = [p] \<Longrightarrow> p = xs"
proof (induction xs arbitrary: p)
  case Nil
  then show ?case by simp
next
  case (Cons c cs)
  then show ?case
    using split_on_nonempty [of sep cs] by (auto split: if_splits list.splits)
qed

lemma unquote_to_bytes_unq: "unquote_to_bytes xs = unq xs"
proof (cases "split_on 37 xs")
  case Nil
  then show ?thesis using split_on_nonempty by blast
next
  case (Cons p ps)
  show ?thesis
  proof (cases ps)
    case Nil
    with Cons have "p = xs" using split_on_single by blast
    with Cons Nil show ?thesis by (simp add: unquote_to_bytes_def unq_def)
  next
    case (Cons a list)
    with \<open>split_on 37 xs = p # ps\<close> show ?thesis
      by (auto simp: unquote_to_bytes_def unq_def)
  qed
qed

lemma unq_plain: "c \<noteq> 37 \<Longrightarrow> unq (c # xs) = c # unq xs"
  using split_on_nonempty [of 37 xs] by (auto simp: unq_def split: list.splits)

lemma hexval_hex_upper: "d < 16 \<Longrightarrow> hexval (hex_upper d) = Some d"
  by (auto simp: hexval_def hex_upper_def)

lemma hex_upper_not_percent: "hex_upper d \<noteq> 37"
  by (simp add: hex_upper_def)

lemma unq_escape:
  assumes "b < 256"
  shows "unq (37 # hex_upper (b div 16) # hex_upper (b mod 16) # xs) = b # unq xs"
proof -
  obtain p ps where s: "split_on 37 xs = p # ps"
    using split_on_nonempty [of 37 xs] by (cases "split_on 37 xs") auto
  have d: "b div 16 < 16" using assms by linarith
  have m: "b mod 16 < 16" by simp
  have "hextobyte (hex_upper (b div 16) # hex_upper (b mod 16) # p) = Some b"
    by (simp add: hextobyte_def hexval_hex_upper [OF d] hexval_hex_upper [OF m])
  then show ?thesis
    by (simp add: unq_def s hex_upper_not_percent unquote_item_def)
qed

lemma unq_quoter: "b < 256 \<Longrightarrow> unq (quoter b @ xs) = b # unq xs"
  by (auto simp: quoter_def unq_plain unq_escape always_safe_def)

lemma unq_quoted: "list_all (\<lambda>b. b < 256) bs \<Longrightarrow> unq (concat (map quoter bs)) = bs"
proof (induction bs)
  case Nil
  show ?case by (simp add: unq_def)
next
  case (Cons b bs)
  then show ?case by (simp add: unq_quoter)
qed

lemma rstrip_safe_Nil: "rstrip_safe bs = [] \<longleftrightarrow> list_all always_safe bs"
  by (auto simp: rstrip_safe_def dropWhile_eq_Nil_conv list_all_iff)

lemma quoter_safe: "list_all always_safe bs \<Longrightarrow> concat (map quoter bs) = bs"
  by (induction bs) (simp_all add: quoter_def)

lemma quote_from_bytes_eq: "quote_from_bytes bs = concat (map quoter bs)"
  by (simp add: quote_from_bytes_def rstrip_safe_Nil quoter_safe)

lemma quoter_ascii: "b < 256 \<Longrightarrow> list_all (\<lambda>x. x < 128) (quoter b)"
  by (auto simp: quoter_def always_safe_def hex_upper_def)

lemma quoted_ascii: "list_all (\<lambda>b. b < 256) bs \<Longrightarrow> list_all (\<lambda>x. x < 128) (concat (map quoter bs))"
  by (induction bs) (simp_all add: quoter_ascii)

lemma quoted_no_percent:
  "37 \<notin> set (concat (map quoter bs)) \<Longrightarrow> list_all always_safe bs"
  by (induction bs) (auto simp: quoter_def split: if_splits)

lemma utf8_encode_bytes: "utf8_encode s = Inr bs \<Longrightarrow> list_all (\<lambda>b. b < 256) bs"
proof (induction s arbitrary: bs)
  case Nil
  then show ?case by simp
next
  case (Cons c cs)
  from Cons.prems obtain b r where b: "utf8_char c = Inr b" and r: "utf8_encode cs = Inr r"
    and bs: "bs = b @ r"
    by (auto split: sum.splits)
  from b have "list_all (\<lambda>b. b < 256) b"
    by (auto simp: utf8_char_def split: if_splits)
  with Cons.IH [OF r] bs show ?case by simp
qed

lemma unquote_runs_ascii:
  "list_all (\<lambda>x. x < 128) s \<Longrightarrow> unquote_runs s = utf8_decode (unquote_to_bytes s)"
proof (cases s)
  case Nil
  then show ?thesis by (simp add: unquote_to_bytes_def)
next
  case (Cons c cs)
  assume a: "list_all (\<lambda>x. x < 128) s"
  with Cons have t: "takeWhile (\<lambda>x. x < 128) (c # cs) = c # cs"
    by (simp add: list_all_iff)
  from a Cons have d: "dropWhile (\<lambda>x. x < 128) cs = []"
    by (simp add: list_all_iff)
  from a Cons have "c < 128" by simp
  then show ?thesis
    unfolding Cons by (simp only: unquote_runs.simps t d if_True append_Nil2)
qed

lemma unquote_quote:
  assumes "quote url = Inr fn"
  shows "unquote fn = url"
proof (cases "url = []")
  case True
  with assms show ?thesis by (simp add: quote_def unquote_def)
next
  case False
  with assms obtain bs where enc: "utf8_encode url = Inr bs"
    and fn: "fn = concat (map quoter bs)"
    by (auto simp: quote_def quote_from_bytes_eq split: sum.splits)
  have bytes: "list_all (\<lambda>b. b < 256) bs" by (rule utf8_encode_bytes [OF enc])
  have dec: "utf8_decode bs = url" by (rule utf8_decode_encode [OF enc])
  show ?thesis
  proof (cases "37 \<in> set fn")
    case True
    then have "unquote fn = utf8_decode (unquote_to_bytes fn)"
      using quoted_ascii [OF bytes] by (simp add: unquote_def unquote_runs_ascii fn)
    also have "\<dots> = utf8_decode bs"
      by (simp add: unquote_to_bytes_unq fn unq_quoted [OF bytes])
    finally show ?thesis using dec by simp
  next
    case False
    then have safe: "list_all always_safe bs"
      using quoted_no_percent fn by blast
    then have "fn = bs" using fn quoter_safe by simp
    moreover have "list_all (\<lambda>b. b < 128) bs"
      using safe by (auto simp: list_all_iff always_safe_def)
    ultimately have "fn = url" using dec utf8_decode_ascii by metis
    with False show ?thesis by (simp add: unquote_def)
  qed
qed

section \<open>Claims about the file names\<close>

text \<open>
  Claim C2. For every URL made of printable characters, decoding the encoded file name gives
  back the URL: \<open>decode_filename_to_url (encode_url_to_filename url) = url\<close>. It is proved
  for every string of Unicode scalar values, that is every string without a lone surrogate:
  for such a URL the encoding does not raise, and decoding its result is the identity.
\<close>

theorem decode_encode_url:
  assumes "list_all scalar url"
  shows "\<exists>filename. encode_url_to_filename url = Inr filename
           \<and> decode_filename_to_url filename = url"
proof -
  from assms obtain bs where "utf8_encode url = Inr bs"
    using utf8_encode_scalar by blast
  then obtain filename where q: "quote url = Inr filename"
    by (cases "url = []") (auto simp: quote_def)
  then have "unquote filename = url" by (rule unquote_quote)
  with q show ?thesis
    by (simp add: encode_url_to_filename_def decode_filename_to_url_def)
qed

theorem decode_encode_url_witness:
  "list_all scalar (lit ''http://a.b/c?d=e f'' @ [233, 8364, 128512])
   \<and> (\<exists>filename. encode_url_to_filename (lit ''http://a.b/c?d=e f'' @ [233, 8364, 128512])
                     = Inr filename
         \<and> decode_filename_to_url filename = lit ''http://a.b/c?d=e f'' @ [233, 8364, 128512])"
proof -
  have h: "list_all scalar (lit ''http://a.b/c?d=e f'' @ [233, 8364, 128512])"
    by (simp add: lit_def scalar_def surrogate_def)
  show ?thesis using h decode_encode_url [OF h] by blast
qed

subsection \<open>The file stays inside the folder\<close>

lemma quoter_no_slash: "47 \<notin> set (quoter b)"
  by (simp add: quoter_def always_safe_def hex_upper_def)

lemma quoted_no_slash: "47 \<notin> set (concat (map quoter bs))"
  using quoter_no_slash by auto

lemma quote_no_slash:
  assumes "quote url = Inr filename"
  shows "47 \<notin> set filename"
proof (cases "url = []")
  case True
  with assms show ?thesis by (simp add: quote_def)
next
  case False
  with assms obtain bs where "filename = concat (map quoter bs)"
    by (auto simp: quote_def quote_from_bytes_eq split: sum.splits)
  then show ?thesis using quoted_no_slash by simp
qed

lemma os_path_join_relative:
  assumes "47 \<notin> set name"
  shows "os_path_join folder name = directory_prefix folder @ name"
proof -
  have "\<not> startswith name [47]" using assms by (cases name) auto
  then show ?thesis by (simp add: os_path_join_def directory_prefix_def)
qed

lemma http_url_head: "http_url url \<Longrightarrow> \<exists>rest. url = 104 # rest"
  by (cases url) (auto simp: http_url_def lit_def)

lemma quote_head:
  assumes "quote (104 # rest) = Inr filename"
  shows "\<exists>tail. filename = 104 # tail"
proof -
  from assms obtain bs where enc: "utf8_encode (104 # rest) = Inr bs"
    and fn: "filename = concat (map quoter bs)"
    by (auto simp: quote_def quote_from_bytes_eq split: sum.splits)
  have "utf8_char 104 = Inr [104]" by (simp add: utf8_char_def)
  with enc obtain r where "bs = 104 # r" by (auto split: sum.splits)
  with fn show ?thesis by (simp add: quoter_def always_safe_def)
qed

lemma http_filename_proper:
  assumes "quote url = Inr filename" "http_url url"
  shows "filename \<noteq> [] \<and> filename \<noteq> lit ''.'' \<and> filename \<noteq> lit ''..''"
proof -
  from assms(2) obtain rest where "url = 104 # rest" using http_url_head by blast
  with assms(1) obtain tail where "filename = 104 # tail" using quote_head by blast
  then show ?thesis by (simp add: lit_def)
qed

lemma fetch_and_save_files:
  assumes "fetch_and_save session url folder st = Inr (result, st')"
    and "files st' p \<noteq> files st p"
  shows "\<exists>filename. encode_url_to_filename url = Inr filename \<and> p = os_path_join folder filename"
  using assms
  by (auto simp: fetch_and_save_def Let_def split: sum.splits fetch_outcome.splits if_splits)

text \<open>
  Claim C10. For every URL, the file name produced by \<open>encode_url_to_filename\<close> contains no
  path separator \<^verbatim>\<open>/\<close> (character 47), so that \<^verbatim>\<open>os.path.join\<close> places it directly inside the
  folder: the path is the folder, one separator, and the name. For the URLs that
  \<^verbatim>\<open>fetch_web_pages\<close> passes on, which begin with \<^verbatim>\<open>http://\<close> or \<^verbatim>\<open>https://\<close>, the name is also not empty
  and neither \<^verbatim>\<open>.\<close> nor \<^verbatim>\<open>..\<close>; and the only path whose content \<open>fetch_and_save\<close> can change
  is this one.
\<close>

theorem filename_stays_in_folder:
  assumes "encode_url_to_filename url = Inr filename"
  shows "47 \<notin> set filename
         \<and> os_path_join folder filename = directory_prefix folder @ filename
         \<and> (http_url url \<longrightarrow> filename \<noteq> [] \<and> filename \<noteq> lit ''.'' \<and> filename \<noteq> lit ''..'')
         \<and> (\<forall>session st result st' p.
               fetch_and_save session url folder st = Inr (result, st')
               \<and> files st' p \<noteq> files st p
               \<longrightarrow> p = directory_prefix folder @ filename)"
proof -
  from assms have q: "quote url = Inr filename" by (simp add: encode_url_to_filename_def)
  have a: "47 \<notin> set filename" by (rule quote_no_slash [OF q])
  have b: "os_path_join folder filename = directory_prefix folder @ filename"
    by (rule os_path_join_relative [OF a])
  have c: "http_url url \<longrightarrow> filename \<noteq> [] \<and> filename \<noteq> lit ''.'' \<and> filename \<noteq> lit ''..''"
    using http_filename_proper [OF q] by blast
  have d: "p = directory_prefix folder @ filename"
    if "fetch_and_save session url folder st = Inr (result, st')" "files st' p \<noteq> files st p"
    for session st result st' p
    using fetch_and_save_files [OF that] assms b by auto
  from a b c d show ?thesis by blast
qed

theorem filename_stays_in_folder_witness:
  "encode_url_to_filename (lit ''http://a/../b'') = Inr (lit ''http%3A%2F%2Fa%2F..%2Fb'')
   \<and> 47 \<notin> set (lit ''http%3A%2F%2Fa%2F..%2Fb'')
   \<and> os_path_join (lit ''./downloaded'') (lit ''http%3A%2F%2Fa%2F..%2Fb'')
       = lit ''./downloaded/http%3A%2F%2Fa%2F..%2Fb''"
proof -
  have e: "encode_url_to_filename (lit ''http://a/../b'') = Inr (lit ''http%3A%2F%2Fa%2F..%2Fb'')"
    by (simp add: encode_url_to_filename_def quote_def quote_from_bytes_def rstrip_safe_def
        utf8_char_def always_safe_def quoter_def hex_upper_def lit_def)
  have d: "directory_prefix (lit ''./downloaded'') = lit ''./downloaded/''"
    by (simp add: directory_prefix_def lit_def)
  show ?thesis
    using e d filename_stays_in_folder [OF e, of "lit ''./downloaded''"]
    by (simp add: lit_def)
qed

subsection \<open>The filter of get_urls\<close>

lemma set_stable_dedup: "set (stable_dedup xs) = set xs"
  by (induction xs rule: stable_dedup.induct) auto

lemma distinct_stable_dedup: "distinct (stable_dedup xs)"
  by (induction xs rule: stable_dedup.induct) (auto simp: set_stable_dedup)

lemma subseq_removeAll: "subseq (removeAll x xs) xs"
  by (induction xs) auto

lemma subseq_stable_dedup: "subseq (stable_dedup xs) xs"
proof (induction xs rule: stable_dedup.induct)
  case 1
  show ?case by simp
next
  case (2 x xs)
  have "subseq (stable_dedup (removeAll x xs)) xs"
    using 2 subseq_removeAll [of x xs] subseq_order.order_trans by blast
  then show ?case by simp
qed

lemma removeAll_filter_seen:
  "removeAll u (filter (\<lambda>x. x \<notin> seen) xs) = filter (\<lambda>x. x \<notin> insert u seen) xs"
  by (induction xs) auto

lemma clean_loop_eq:
  "clean_loop urls seen clean
   = clean @ stable_dedup (filter (\<lambda>x. x \<notin> seen) (candidates urls))"
proof (induction urls arbitrary: seen clean)
  case Nil
  show ?case by (simp add: candidates_def)
next
  case (Cons u urls)
  show ?case
  proof (cases "truthy u \<and> http_url (the u) \<and> the u \<notin> seen")
    case True
    then have c: "candidates (u # urls) = the u # candidates urls"
      by (simp add: candidates_def)
    from True show ?thesis
      by (simp add: Cons.IH c removeAll_filter_seen)
  next
    case False
    then have "filter (\<lambda>x. x \<notin> seen) (candidates (u # urls))
               = filter (\<lambda>x. x \<notin> seen) (candidates urls)"
      by (auto simp: candidates_def)
    with False show ?thesis
      using Cons.IH [of seen clean] by auto
  qed
qed

lemma clean_urls_eq: "clean_urls urls = stable_dedup (candidates urls)"
  by (simp add: clean_urls_def clean_loop_eq)

lemma subseq_candidates: "subseq (map Some (candidates urls)) urls"
proof (induction urls)
  case Nil
  show ?case by (simp add: candidates_def)
next
  case (Cons u urls)
  show ?case
  proof (cases "truthy u \<and> http_url (the u)")
    case True
    then have "map Some (candidates (u # urls)) = u # map Some (candidates urls)"
      by (cases u) (auto simp: candidates_def truthy_def)
    with Cons show ?thesis by simp
  next
    case False
    then have "candidates (u # urls) = candidates urls"
      by (auto simp: candidates_def)
    with Cons show ?thesis by (simp add: list_emb_Cons)
  qed
qed

text \<open>
  Claim C3. For every URL list, with null or empty entries, entries that are not HTTP and
  repeats, the filtering step of \<^verbatim>\<open>get_urls\<close> returns the stable de-duplication of the HTTP(S)
  entries: the first occurrence of each, in the order of first occurrence. The result has no
  duplicates, every entry begins with \<^verbatim>\<open>http://\<close> or \<^verbatim>\<open>https://\<close>, it contains exactly the HTTP(S)
  entries of the input, and it is a subsequence of the input.
\<close>

theorem clean_urls_stable_dedup:
  "clean_urls urls = stable_dedup (candidates urls)
   \<and> distinct (clean_urls urls)
   \<and> list_all http_url (clean_urls urls)
   \<and> set (clean_urls urls) = set (candidates urls)
   \<and> subseq (map Some (clean_urls urls)) urls"
proof -
  have "list_all http_url (candidates urls)"
    by (simp add: candidates_def list_all_iff)
  then have h: "list_all http_url (clean_urls urls)"
    by (simp add: clean_urls_eq list_all_iff set_stable_dedup)
  have "subseq (map Some (stable_dedup (candidates urls))) (map Some (candidates urls))"
    by (rule subseq_map [OF subseq_stable_dedup])
  then have s: "subseq (map Some (clean_urls urls)) urls"
    using subseq_candidates subseq_order.order_trans clean_urls_eq by metis
  show ?thesis
    using h s by (simp add: clean_urls_eq distinct_stable_dedup set_stable_dedup)
qed

theorem clean_urls_stable_dedup_witness:
  "clean_urls [Some (lit ''http://b''), None, Some [], Some (lit ''ftp://x''),
               Some (lit ''https://a''), Some (lit ''http://b''), Some (lit ''https://a'')]
   = [lit ''http://b'', lit ''https://a'']"
proof -
  have "candidates [Some (lit ''http://b''), None, Some [], Some (lit ''ftp://x''),
               Some (lit ''https://a''), Some (lit ''http://b''), Some (lit ''https://a'')]
        = [lit ''http://b'', lit ''https://a'', lit ''http://b'', lit ''https://a'']"
    by (simp add: candidates_def truthy_def http_url_def lit_def)
  then show ?thesis
    using clean_urls_stable_dedup
      [of "[Some (lit ''http://b''), None, Some [], Some (lit ''ftp://x''),
               Some (lit ''https://a''), Some (lit ''http://b''), Some (lit ''https://a'')]"]
    by (simp add: lit_def)
qed

subsection \<open>An unknown provider\<close>

text \<open>
  Claim C6 says that \<^verbatim>\<open>get_urls\<close> returns an empty list for every provider identifier that is
  neither \<^verbatim>\<open>"duckduckgo"\<close> nor \<^verbatim>\<open>"google"\<close>. The source first replaces an absent or empty
  identifier by \<^verbatim>\<open>"duckduckgo"\<close> and lower-cases it: the identifier \<^verbatim>\<open>"Google"\<close> is neither of the
  two names, and the Google search is used and its URLs are returned.
\<close>

theorem get_urls_unknown_provider_counterexample:
  "lit ''Google'' \<noteq> lit ''duckduckgo'' \<and> lit ''Google'' \<noteq> lit ''google''
   \<and> get_urls (\<lambda>s. s) (\<lambda>query n. Raises) (\<lambda>query n. Returns [Some (lit ''http://a'')])
        (lit ''q'') 4 (Some (lit ''Google''))
      = [lit ''http://a'']"
  by (simp add: get_urls_def normal_provider_def truthy_def lower_def ascii_lower_def
      clean_urls_def http_url_def lit_def)

text \<open>
  Claim C6, amended. For every query and result count, \<^verbatim>\<open>get_urls\<close> returns an empty list, and
  raises nothing, when the provider identifier is neither \<^verbatim>\<open>"duckduckgo"\<close> nor \<^verbatim>\<open>"google"\<close> after
  an absent or empty identifier has been replaced by \<^verbatim>\<open>"duckduckgo"\<close> and the identifier has
  been lower-cased. Neither search back end is consulted.
\<close>

theorem get_urls_unknown_provider:
  assumes "normal_provider ulower provider \<noteq> lit ''duckduckgo''"
    and "normal_provider ulower provider \<noteq> lit ''google''"
  shows "get_urls ulower ddgs google query num_results provider = []"
  using assms by (simp add: get_urls_def clean_urls_def)

theorem get_urls_unknown_provider_witness:
  "normal_provider (\<lambda>s. s) (Some (lit ''Bing'')) = lit ''bing''
   \<and> get_urls (\<lambda>s. s) (\<lambda>query n. Returns [Some (lit ''http://a'')])
        (\<lambda>query n. Returns [Some (lit ''http://a'')]) (lit ''q'') 4 (Some (lit ''Bing'')) = []"
proof -
  have n: "normal_provider (\<lambda>s. s) (Some (lit ''Bing'')) = lit ''bing''"
    by (simp add: normal_provider_def truthy_def lower_def ascii_lower_def lit_def)
  have a: "normal_provider (\<lambda>s. s) (Some (lit ''Bing'')) \<noteq> lit ''duckduckgo''"
    unfolding n by (simp add: lit_def)
  have b: "normal_provider (\<lambda>s. s) (Some (lit ''Bing'')) \<noteq> lit ''google''"
    unfolding n by (simp add: lit_def)
  show ?thesis using n get_urls_unknown_provider [OF a b] by simp
qed

subsection \<open>Query expansion\<close>

text \<open>
  Claim C1 says that \<^verbatim>\<open>extract_queries\<close> never returns an empty list. When the content of the
  chat response is the JSON text \<^verbatim>\<open>[]\<close>, which \<^verbatim>\<open>json.loads\<close> reads as the empty array, the
  function returns the empty list: the two \<^verbatim>\<open>return\<close> statements after \<^verbatim>\<open>json.loads\<close> lack the
  fallback to the question that the other paths have. The same happens for the content
  \<^verbatim>\<open>{"queries": []}\<close>.
\<close>

theorem extract_queries_empty_array:
  assumes "json_loads (lit ''[]'') = Some (JArray [])"
  shows "extract_queries json_loads py_str (ChatContent (Some (lit ''[]''))) plain_chat query = []"
  using assms
  by (simp add: extract_queries_def queries_of_content_def parsed_queries_def truthy_def lit_def)

theorem extract_queries_empty_array_witness:
  "(\<lambda>s. if s = lit ''[]'' then Some (JArray []) else None) (lit ''[]'') = Some (JArray [])
   \<and> extract_queries (\<lambda>s. if s = lit ''[]'' then Some (JArray []) else None) (\<lambda>q. [])
        (ChatContent (Some (lit ''[]''))) ChatRaises (lit ''capital of France'') = []"
  using extract_queries_empty_array
    [of "\<lambda>s. if s = lit ''[]'' then Some (JArray []) else None" "\<lambda>q. []" ChatRaises
        "lit ''capital of France''"]
  by simp

subsection \<open>A failed fetch and the files\<close>

text \<open>
  Claim C7 says that a URL whose fetch failed never contributes a file. When the page has
  been read and the file opened, and writing the text raises, \<^verbatim>\<open>fetch_and_save\<close> returns
  \<^verbatim>\<open>None\<close>, the value of a failed fetch, and leaves the file behind, here empty.
\<close>

theorem fetch_and_save_failed_leaves_file:
  "fetch_and_save (\<lambda>url. WriteError []) (lit ''http://a'') (lit ''./downloaded'')
     \<lparr>files = Map.empty, log = []\<rparr>
   = Inr (None, \<lparr>files = [lit ''./downloaded/http%3A%2F%2Fa'' \<mapsto> []],
                 log = [Fetched (lit ''http://a'') None]\<rparr>)"
  by (simp add: fetch_and_save_def encode_url_to_filename_def quote_def quote_from_bytes_def
      rstrip_safe_def utf8_char_def always_safe_def quoter_def hex_upper_def os_path_join_def
      lit_def)

subsection \<open>The fallback prompt\<close>




section \<open>Claims about a run of \<^verbatim>\<open>fetch_web_pages\<close>\<close>

subsection \<open>The log of a run\<close>














subsection \<open>Pacing, and one attempt for each entry of the schedule\<close>



subsection \<open>No de-duplication across queries\<close>




subsection \<open>The batch completes\<close>




end
